theory Spec2Isabelle
  imports Complex_Main
begin

section \<open>Projection of a contact map through a gapped alignment\<close>

text \<open>
  The development embeds \<^verbatim>\<open>align_contact_map\<close> and \<^verbatim>\<open>calculate_contact_map\<close> of
  \<^verbatim>\<open>src/mDeepFRI/bio_utils.py\<close>.
  Python integers are \<^typ>\<open>int\<close>, strings are \<^typ>\<open>string\<close>, the dictionary
  \<^verbatim>\<open>target_to_query_indices\<close> is a map, and every exception the interpreter can raise
  on the way (an out-of-range subscript, a missing key, a rejected argument) is a value
  of \<open>error\<close>.
  The output array is created by \<^verbatim>\<open>np.zeros\<close> and only ever receives the constant 1,
  so its cells are modelled as integers 0 and 1.
\<close>

subsection \<open>Data\<close>

datatype error = IndexError | KeyError | ValueError

type_synonym contact = "int \<times> int"

type_synonym matrix = "int list list"

record scan_state =
  sparse_query_contact_map :: "contact list"
  target_index :: int
  query_index :: int
  target_to_query_indices :: "int \<rightharpoonup> int"

text \<open>The four local variables as they are initialised before the loop (lines 283-290).\<close>

definition init_state :: scan_state where
  "init_state =
     \<lparr>sparse_query_contact_map = [], target_index = 0, query_index = 0,
      target_to_query_indices = Map.empty\<rparr>"

subsection \<open>The scan over the alignment columns\<close>

text \<open>
  Subscripting a string with a non-negative index: \<^verbatim>\<open>s[i]\<close> raises IndexError at or
  beyond the end.
\<close>

definition str_getitem :: "string \<Rightarrow> nat \<Rightarrow> error + char" where
  "str_getitem s i = (if i < length s then Inr (s ! i) else Inl IndexError)"

text \<open>
  The inner loop \<^verbatim>\<open>for j in range(1, generated_contacts + 1)\<close> (lines 302-306): the
  two appends of every round, in order. The range is empty when the radius is below 1.
\<close>

definition generated_loop :: "int \<Rightarrow> int \<Rightarrow> contact list" where
  "generated_loop generated_contacts qi =
     concat (map (\<lambda>j. [(qi + j, qi), (qi - j, qi)]) [1..generated_contacts])"

text \<open>
  The body of the outer loop at column \<open>i\<close> (lines 295-312). The target string is read
  only when the query symbol is not a gap.
\<close>

definition scan_column :: "string \<Rightarrow> string \<Rightarrow> int \<Rightarrow> nat \<Rightarrow> scan_state \<Rightarrow> error + scan_state" where
  "scan_column query_alignment target_alignment generated_contacts i s =
     (if query_alignment ! i = CHR ''-'' then
        Inr (s\<lparr>target_to_query_indices := (target_to_query_indices s)(target_index s \<mapsto> - 1),
               target_index := target_index s + 1\<rparr>)
      else
        (case str_getitem target_alignment i of
           Inl e \<Rightarrow> Inl e
         | Inr tc \<Rightarrow>
             if tc = CHR ''-'' then
               Inr (s\<lparr>sparse_query_contact_map :=
                        sparse_query_contact_map s @ generated_loop generated_contacts (query_index s),
                      query_index := query_index s + 1\<rparr>)
             else
               Inr (s\<lparr>target_to_query_indices :=
                        (target_to_query_indices s)(target_index s \<mapsto> query_index s),
                      query_index := query_index s + 1,
                      target_index := target_index s + 1\<rparr>)))"

text \<open>The outer loop over a list of column indices; an exception leaves the loop.\<close>

fun scan_loop :: "string \<Rightarrow> string \<Rightarrow> int \<Rightarrow> nat list \<Rightarrow> scan_state \<Rightarrow> error + scan_state" where
  "scan_loop q t g [] s = Inr s"
| "scan_loop q t g (i # ks) s =
     (case scan_column q t g i s of Inl e \<Rightarrow> Inl e | Inr s' \<Rightarrow> scan_loop q t g ks s')"

text \<open>\<^verbatim>\<open>for i in range(len(query_alignment))\<close> from the initial state (line 293).\<close>

definition scan :: "string \<Rightarrow> string \<Rightarrow> int \<Rightarrow> error + scan_state" where
  "scan query_alignment target_alignment generated_contacts =
     scan_loop query_alignment target_alignment generated_contacts
       [0..<length query_alignment] init_state"

subsection \<open>Translation of the target contacts\<close>

text \<open>
  The \<^verbatim>\<open>map\<close> of lines 315-319: both subscripts \<^verbatim>\<open>target_to_query_indices[x[0]]\<close> and
  \<^verbatim>\<open>target_to_query_indices[x[1]]\<close> are plain dictionary subscripts, so a missing key
  raises KeyError, first component first.
\<close>

fun translate :: "(int \<rightharpoonup> int) \<Rightarrow> contact list \<Rightarrow> error + contact list" where
  "translate d [] = Inr []"
| "translate d (x # xs) =
     (case d (fst x) of
        None \<Rightarrow> Inl KeyError
      | Some a \<Rightarrow>
          (case d (snd x) of
             None \<Rightarrow> Inl KeyError
           | Some b \<Rightarrow>
               (case translate d xs of Inl e \<Rightarrow> Inl e | Inr r \<Rightarrow> Inr ((a, b) # r))))"

text \<open>The \<^verbatim>\<open>filter\<close> of line 321.\<close>

definition filter_unmapped :: "contact list \<Rightarrow> contact list" where
  "filter_unmapped sparse_map = filter (\<lambda>x. fst x \<noteq> - 1 \<and> snd x \<noteq> - 1) sparse_map"

subsection \<open>Assembly of the dense map\<close>

definition np_zeros :: "nat \<Rightarrow> matrix" where
  "np_zeros n = replicate n (replicate n 0)"

text \<open>
  An integer subscript along an axis of length \<open>n\<close>, as the array library resolves it:
  a negative index counts from the end, anything outside \<open>[-n, n)\<close> raises IndexError.
\<close>

definition np_index :: "nat \<Rightarrow> int \<Rightarrow> error + nat" where
  "np_index n i =
     (if - int n \<le> i \<and> i < int n then Inr (nat (if i < 0 then i + int n else i))
      else Inl IndexError)"

text \<open>The assignment \<^verbatim>\<open>output_contact_map[i, j] = 1\<close>.\<close>

definition setitem :: "matrix \<Rightarrow> int \<Rightarrow> int \<Rightarrow> error + matrix" where
  "setitem m i j =
     (case np_index (length m) i of
        Inl e \<Rightarrow> Inl e
      | Inr r \<Rightarrow>
          (case np_index (length (m ! r)) j of
             Inl e \<Rightarrow> Inl e
           | Inr c \<Rightarrow> Inr (m[r := (m ! r)[c := 1]])))"

text \<open>The diagonal loop \<^verbatim>\<open>for i in range(query_index)\<close> (lines 328-329).\<close>

fun fill_diagonal :: "nat list \<Rightarrow> matrix \<Rightarrow> error + matrix" where
  "fill_diagonal [] m = Inr m"
| "fill_diagonal (i # ks) m =
     (case setitem m (int i) (int i) of Inl e \<Rightarrow> Inl e | Inr m' \<Rightarrow> fill_diagonal ks m')"

text \<open>
  The loop over the merged sparse list (lines 331-338): the two \<^verbatim>\<open>continue\<close> guards
  test the first component only, then both symmetric cells are written.
\<close>

fun fill_contacts :: "contact list \<Rightarrow> int \<Rightarrow> matrix \<Rightarrow> error + matrix" where
  "fill_contacts [] qi m = Inr m"
| "fill_contacts (x # xs) qi m =
     (if fst x < 0 then fill_contacts xs qi m
      else if fst x \<ge> qi then fill_contacts xs qi m
      else
        (case setitem m (fst x) (snd x) of
           Inl e \<Rightarrow> Inl e
         | Inr m1 \<Rightarrow>
             (case setitem m1 (snd x) (fst x) of
                Inl e \<Rightarrow> Inl e
              | Inr m2 \<Rightarrow> fill_contacts xs qi m2)))"

text \<open>Lines 326-338: allocation, diagonal, contacts.\<close>

definition assemble :: "int \<Rightarrow> contact list \<Rightarrow> error + matrix" where
  "assemble qi merged =
     (case fill_diagonal [0..<nat qi] (np_zeros (nat qi)) of
        Inl e \<Rightarrow> Inl e
      | Inr m \<Rightarrow> fill_contacts merged qi m)"

text \<open>
  The contacts handed to the assembly: the generated ones collected by the scan, extended
  by the translated and filtered target contacts (line 323).
\<close>

definition merged_contacts :: "scan_state \<Rightarrow> contact list \<Rightarrow> contact list" where
  "merged_contacts s sparse_map = sparse_query_contact_map s @ filter_unmapped sparse_map"

subsection \<open>The whole function\<close>

definition align_contact_map :: "string \<Rightarrow> string \<Rightarrow> contact list \<Rightarrow> int \<Rightarrow> error + matrix" where
  "align_contact_map query_alignment target_alignment sparse_target_contact_map generated_contacts =
     (case scan query_alignment target_alignment generated_contacts of
        Inl e \<Rightarrow> Inl e
      | Inr s \<Rightarrow>
          (case translate (target_to_query_indices s) sparse_target_contact_map of
             Inl e \<Rightarrow> Inl e
           | Inr sparse_map \<Rightarrow> assemble (query_index s) (merged_contacts s sparse_map)))"

section \<open>The contact map of a structure\<close>

text \<open>
  \<^verbatim>\<open>calculate_contact_map\<close> (lines 179-211). Parsing is the PDB parser's work: the
  function is modelled from the list of residues that \<^verbatim>\<open>structure.get_residues()\<close>
  yields. A residue maps atom names to coordinates, and \<^verbatim>\<open>residue["CA"]\<close> raises
  KeyError when it has no such atom. The Euclidean distance, which the library computes
  in floating point, is a parameter \<open>metric\<close>.
\<close>

type_synonym 'c residue = "string \<rightharpoonup> 'c"

datatype contact_map = Dense "int list list" | Sparse "contact list"

text \<open>The slice \<^verbatim>\<open>xs[:k]\<close>; a negative bound counts from the end.\<close>

definition slice_to :: "int \<Rightarrow> 'a list \<Rightarrow> 'a list" where
  "slice_to k xs = take (nat (if k < 0 then int (length xs) + k else k)) xs"

text \<open>The comprehension \<^verbatim>\<open>[residue["CA"].get_coord() for residue in residues]\<close>.\<close>

fun ca_coords :: "'c residue list \<Rightarrow> error + 'c list" where
  "ca_coords [] = Inr []"
| "ca_coords (r # rs) =
     (case r ''CA'' of
        None \<Rightarrow> Inl KeyError
      | Some c \<Rightarrow> (case ca_coords rs of Inl e \<Rightarrow> Inl e | Inr cs \<Rightarrow> Inr (c # cs)))"

text \<open>
  \<^verbatim>\<open>np.array\<close> of a list of coordinate triples is a two-dimensional array, except for
  the empty list, whose array is one-dimensional with shape \<open>(0,)\<close>.
\<close>

definition ndim :: "'c list \<Rightarrow> nat" where
  "ndim coords = (if coords = [] then 1 else 2)"

text \<open>
  \<^verbatim>\<open>squareform(pdist(coords))\<close>: the library's \<^verbatim>\<open>pdist\<close> raises ValueError unless
  its argument is two-dimensional; otherwise it measures every pair \<open>i < j\<close> once, and
  \<^verbatim>\<open>squareform\<close> lays the distances out as the symmetric matrix with a zero diagonal.
\<close>

definition squareform_pdist :: "('c \<Rightarrow> 'c \<Rightarrow> real) \<Rightarrow> 'c list \<Rightarrow> error + real list list" where
  "squareform_pdist metric coords =
     (if ndim coords \<noteq> 2 then Inl ValueError
      else Inr (map (\<lambda>i. map (\<lambda>j. if i = j then 0
                                    else metric (coords ! min i j) (coords ! max i j))
                          [0..<length coords]) [0..<length coords]))"

text \<open>\<^verbatim>\<open>np.argwhere(cmap == 1)\<close>: the index pairs of the cells equal to 1, in row order.\<close>

definition argwhere_one :: "int list list \<Rightarrow> contact list" where
  "argwhere_one cmap =
     concat (map (\<lambda>i. map (\<lambda>j. (int i, int j))
                          (filter (\<lambda>j. cmap ! i ! j = 1) [0..<length (cmap ! i)]))
                 [0..<length cmap])"

definition calculate_contact_map ::
  "('c \<Rightarrow> 'c \<Rightarrow> real) \<Rightarrow> 'c residue list \<Rightarrow> int \<Rightarrow> real \<Rightarrow> string \<Rightarrow> error + contact_map" where
  "calculate_contact_map metric structure_residues max_seq_len threshold mode =
     (let residues = slice_to max_seq_len structure_residues in
      case ca_coords residues of
        Inl e \<Rightarrow> Inl e
      | Inr coords \<Rightarrow>
          (case squareform_pdist metric coords of
             Inl e \<Rightarrow> Inl e
           | Inr distances \<Rightarrow>
               (let cmap = map (map (\<lambda>d. if d < threshold then 1 else 0)) distances
                in if mode = ''sparse'' then Inr (Sparse (argwhere_one cmap))
                   else Inr (Dense cmap))))"

section \<open>Vocabulary for the statements\<close>

text \<open>A matrix with \<open>n\<close> rows of length \<open>n\<close>.\<close>

definition square :: "nat \<Rightarrow> matrix \<Rightarrow> bool" where
  "square n m \<longleftrightarrow> length m = n \<and> (\<forall>r<n. length (m ! r) = n)"

text \<open>
  The cells the contact loop writes for a list of contacts: both orientations of every
  contact whose first component passes the two guards.
\<close>

definition written :: "int \<Rightarrow> contact list \<Rightarrow> contact list" where
  "written qi cs =
     concat (map (\<lambda>x. [(fst x, snd x), (snd x, fst x)])
                 (filter (\<lambda>x. 0 \<le> fst x \<and> fst x < qi) cs))"

text \<open>The number of symbols other than the gap in an alignment string.\<close>

definition ungapped_length :: "string \<Rightarrow> nat" where
  "ungapped_length a = length (filter (\<lambda>c. c \<noteq> CHR ''-'') a)"

text \<open>
  The number of columns on which the scan advances the target index: those with a gap in
  the query or a residue in the target.
\<close>

definition visited :: "string \<Rightarrow> string \<Rightarrow> nat" where
  "visited q t = length (filter (\<lambda>p. fst p = CHR ''-'' \<or> snd p \<noteq> CHR ''-'') (zip q t))"

text \<open>
  The invariant of the scan: both counters are non-negative, every collected contact has
  its second component below the query index, every dictionary value is -1 or below the
  query index, and the dictionary's keys are the integers below the target index.
\<close>

definition scan_inv :: "scan_state \<Rightarrow> bool" where
  "scan_inv s \<longleftrightarrow>
     0 \<le> query_index s \<and> 0 \<le> target_index s \<and>
     (\<forall>x\<in>set (sparse_query_contact_map s). 0 \<le> snd x \<and> snd x < query_index s) \<and>
     (\<forall>k v. target_to_query_indices s k = Some v \<longrightarrow> v = - 1 \<or> (0 \<le> v \<and> v < query_index s)) \<and>
     dom (target_to_query_indices s) = {0..<target_index s}"

text \<open>
  Written from the specification's wording, for comparison with the code: the dense
  symmetric form of a sparse contact graph on \<open>n\<close> indices, with the diagonal set. Cell
  \<open>(i, j)\<close> holds 1 when \<open>i = j\<close> or the graph lists the pair in either order, and 0
  otherwise.
\<close>

definition dense_symmetric_form :: "nat \<Rightarrow> contact list \<Rightarrow> matrix" where
  "dense_symmetric_form n cs =
     map (\<lambda>i. map (\<lambda>j. if i = j \<or> (int i, int j) \<in> set cs \<or> (int j, int i) \<in> set cs
                       then 1 else 0) [0..<n]) [0..<n]"

text \<open>
  Two scan states that agree on both counters and on the dictionary, the second holding
  at least the contacts of the first.
\<close>

definition radius_rel :: "scan_state \<Rightarrow> scan_state \<Rightarrow> bool" where
  "radius_rel s s' \<longleftrightarrow>
     target_index s' = target_index s \<and> query_index s' = query_index s \<and>
     target_to_query_indices s' = target_to_query_indices s \<and>
     set (sparse_query_contact_map s) \<subseteq> set (sparse_query_contact_map s')"

section \<open>Properties of the stages\<close>

lemma square_np_zeros: "square n (np_zeros n)"
  by (simp add: square_def np_zeros_def)

lemma np_zeros_cell: "r < n \<Longrightarrow> c < n \<Longrightarrow> np_zeros n ! r ! c = 0"
  by (simp add: np_zeros_def)

lemma np_index_in_range: "0 \<le> i \<Longrightarrow> i < int n \<Longrightarrow> np_index n i = Inr (nat i)"
  by (simp add: np_index_def)

lemma setitem_in_range:
  assumes "square n m" "0 \<le> i" "i < int n" "0 \<le> j" "j < int n"
  shows "setitem m i j = Inr (m[nat i := (m ! nat i)[nat j := 1]])"
proof -
  have r: "np_index (length m) i = Inr (nat i)"
    using assms by (simp add: square_def np_index_in_range)
  have "nat i < n" using assms by simp
  then have "length (m ! nat i) = n" using assms(1) by (simp add: square_def)
  then have c: "np_index (length (m ! nat i)) j = Inr (nat j)"
    using assms by (simp add: np_index_in_range)
  show ?thesis by (simp add: setitem_def r c)
qed

lemma square_update: "square n m \<Longrightarrow> square n (m[a := (m ! a)[b := v]])"
  by (cases "a < length m") (auto simp: square_def nth_list_update)

lemma cell_update:
  "square n m \<Longrightarrow> r < n \<Longrightarrow> c < n \<Longrightarrow>
     (m[a := (m ! a)[b := v]]) ! r ! c = (if r = a \<and> c = b then v else m ! r ! c)"
  by (cases "a < length m") (auto simp: square_def nth_list_update)

lemma fill_diagonal_char:
  assumes "square n m" "\<forall>i\<in>set ks. i < n"
  shows "\<exists>m'. fill_diagonal ks m = Inr m' \<and> square n m' \<and>
           (\<forall>r<n. \<forall>c<n. m' ! r ! c = (if r = c \<and> r \<in> set ks then 1 else m ! r ! c))"
  using assms
proof (induction ks arbitrary: m)
  case Nil
  then show ?case by simp
next
  case (Cons i ks)
  let ?m1 = "m[i := (m ! i)[i := 1]]"
  have i: "i < n" using Cons.prems by simp
  have s: "setitem m (int i) (int i) = Inr ?m1"
    using setitem_in_range[OF Cons.prems(1), of "int i" "int i"] i by simp
  have sq: "square n ?m1" using Cons.prems(1) by (rule square_update)
  from Cons.IH[OF sq] Cons.prems(2) obtain m' where
    m': "fill_diagonal ks ?m1 = Inr m'" "square n m'"
        "\<forall>r<n. \<forall>c<n. m' ! r ! c = (if r = c \<and> r \<in> set ks then 1 else ?m1 ! r ! c)"
    by auto
  have "\<forall>r<n. \<forall>c<n. m' ! r ! c = (if r = c \<and> r \<in> set (i # ks) then 1 else m ! r ! c)"
    using m'(3) cell_update[OF Cons.prems(1)] by auto
  then show ?case using s m'(1,2) by simp
qed

lemma fill_contacts_char:
  assumes "square n m" "qi = int n" "\<forall>x\<in>set cs. 0 \<le> snd x \<and> snd x < qi"
  shows "\<exists>m'. fill_contacts cs qi m = Inr m' \<and> square n m' \<and>
           (\<forall>r<n. \<forall>c<n. m' ! r ! c =
              (if (int r, int c) \<in> set (written qi cs) then 1 else m ! r ! c))"
  using assms
proof (induction cs arbitrary: m)
  case Nil
  then show ?case by (simp add: written_def)
next
  case (Cons x xs)
  have tl: "\<forall>x\<in>set xs. 0 \<le> snd x \<and> snd x < qi" using Cons.prems(3) by simp
  show ?case
  proof (cases "0 \<le> fst x \<and> fst x < qi")
    case False
    then have w: "written qi (x # xs) = written qi xs" by (simp add: written_def)
    from False have f: "fill_contacts (x # xs) qi m = fill_contacts xs qi m" by auto
    show ?thesis unfolding w f using Cons.IH[OF Cons.prems(1,2) tl] .
  next
    case True
    let ?i = "nat (fst x)" and ?j = "nat (snd x)"
    let ?m1 = "m[?i := (m ! ?i)[?j := 1]]"
    let ?m2 = "?m1[?j := (?m1 ! ?j)[?i := 1]]"
    have jr: "0 \<le> snd x" "snd x < int n" using Cons.prems(2,3) by auto
    have ir: "0 \<le> fst x" "fst x < int n" using True Cons.prems(2) by auto
    have s1: "setitem m (fst x) (snd x) = Inr ?m1"
      using setitem_in_range[OF Cons.prems(1) ir jr] .
    have sq1: "square n ?m1" using Cons.prems(1) by (rule square_update)
    have s2: "setitem ?m1 (snd x) (fst x) = Inr ?m2"
      using setitem_in_range[OF sq1 jr ir] .
    have sq2: "square n ?m2" using sq1 by (rule square_update)
    have f: "fill_contacts (x # xs) qi m = fill_contacts xs qi ?m2"
      using True s1 s2 by simp
    from Cons.IH[OF sq2 Cons.prems(2) tl] obtain m' where
      m': "fill_contacts xs qi ?m2 = Inr m'" "square n m'"
          "\<forall>r<n. \<forall>c<n. m' ! r ! c =
              (if (int r, int c) \<in> set (written qi xs) then 1 else ?m2 ! r ! c)"
      by auto
    have w: "set (written qi (x # xs)) = {(fst x, snd x), (snd x, fst x)} \<union> set (written qi xs)"
      using True by (simp add: written_def)
    have c2: "\<forall>r<n. \<forall>c<n. ?m2 ! r ! c =
        (if (int r, int c) \<in> {(fst x, snd x), (snd x, fst x)} then 1 else m ! r ! c)"
    proof (intro allI impI)
      fix r c assume rc: "r < n" "c < n"
      have "?m2 ! r ! c = (if r = ?j \<and> c = ?i then 1 else ?m1 ! r ! c)"
        using cell_update[OF sq1 rc] .
      also have "?m1 ! r ! c = (if r = ?i \<and> c = ?j then 1 else m ! r ! c)"
        using cell_update[OF Cons.prems(1) rc] .
      finally show "?m2 ! r ! c =
        (if (int r, int c) \<in> {(fst x, snd x), (snd x, fst x)} then 1 else m ! r ! c)"
        using ir jr by auto
    qed
    have "\<forall>r<n. \<forall>c<n. m' ! r ! c =
              (if (int r, int c) \<in> set (written qi (x # xs)) then 1 else m ! r ! c)"
      unfolding w using m'(3) c2 by auto
    then show ?thesis unfolding f using m'(1,2) by blast
  qed
qed

lemma assemble_char:
  assumes "0 \<le> qi" "\<forall>x\<in>set cs. 0 \<le> snd x \<and> snd x < qi"
  shows "\<exists>m. assemble qi cs = Inr m \<and> square (nat qi) m \<and>
           (\<forall>r<nat qi. \<forall>c<nat qi. m ! r ! c =
              (if r = c \<or> (int r, int c) \<in> set (written qi cs) then 1 else 0))"
proof -
  let ?n = "nat qi"
  from fill_diagonal_char[OF square_np_zeros, where ks = "[0..<?n]" and n = ?n] obtain d where
    d: "fill_diagonal [0..<?n] (np_zeros ?n) = Inr d" "square ?n d"
       "\<forall>r<?n. \<forall>c<?n. d ! r ! c = (if r = c \<and> r \<in> set [0..<?n] then 1 else np_zeros ?n ! r ! c)"
    by auto
  have qi: "qi = int ?n" using assms(1) by simp
  from fill_contacts_char[OF d(2) qi assms(2)] obtain m where
    m: "fill_contacts cs qi d = Inr m" "square ?n m"
       "\<forall>r<?n. \<forall>c<?n. m ! r ! c = (if (int r, int c) \<in> set (written qi cs) then 1 else d ! r ! c)"
    by auto
  have "\<forall>r<?n. \<forall>c<?n. m ! r ! c = (if r = c \<or> (int r, int c) \<in> set (written qi cs) then 1 else 0)"
    using m(3) d(3) by (auto simp: np_zeros_cell)
  then show ?thesis using d(1) m(1,2) by (simp add: assemble_def)
qed

lemma scan_loop_append:
  "scan_loop q t g (xs @ ys) s =
     (case scan_loop q t g xs s of Inl e \<Rightarrow> Inl e | Inr s' \<Rightarrow> scan_loop q t g ys s')"
  by (induction xs arbitrary: s) (auto split: sum.splits)

lemma generated_loop_snd: "x \<in> set (generated_loop g qi) \<Longrightarrow> snd x = qi"
  by (auto simp: generated_loop_def)

lemma scan_inv_init: "scan_inv init_state"
  by (simp add: scan_inv_def init_state_def)

lemma interval_insert: "0 \<le> (a::int) \<Longrightarrow> insert a {0..<a} = {0..<a + 1}"
  by auto

lemma scan_inv_gap:
  assumes "scan_inv s"
  shows "scan_inv (s\<lparr>target_to_query_indices := (target_to_query_indices s)(target_index s \<mapsto> - 1),
               target_index := target_index s + 1\<rparr>)"
  using assms by (simp add: scan_inv_def interval_insert)

lemma scan_inv_generated:
  assumes "scan_inv s"
  shows "scan_inv (s\<lparr>sparse_query_contact_map :=
                        sparse_query_contact_map s @ generated_loop g (query_index s),
                      query_index := query_index s + 1\<rparr>)"
proof -
  have a: "\<forall>x\<in>set (sparse_query_contact_map s). 0 \<le> snd x \<and> snd x < query_index s + 1"
    using assms by (auto simp: scan_inv_def)
  have b: "\<forall>x\<in>set (generated_loop g (query_index s)). 0 \<le> snd x \<and> snd x < query_index s + 1"
    using assms by (auto simp: scan_inv_def dest: generated_loop_snd)
  have c: "\<forall>k v. target_to_query_indices s k = Some v \<longrightarrow> v = - 1 \<or> (0 \<le> v \<and> v < query_index s + 1)"
    using assms unfolding scan_inv_def by force
  show ?thesis using assms a b c by (simp add: scan_inv_def ball_Un)
qed

lemma scan_inv_match:
  assumes "scan_inv s"
  shows "scan_inv (s\<lparr>target_to_query_indices :=
                        (target_to_query_indices s)(target_index s \<mapsto> query_index s),
                      query_index := query_index s + 1,
                      target_index := target_index s + 1\<rparr>)"
proof -
  have a: "\<forall>x\<in>set (sparse_query_contact_map s). 0 \<le> snd x \<and> snd x < query_index s + 1"
    using assms by (auto simp: scan_inv_def)
  have c: "\<forall>k v. target_to_query_indices s k = Some v \<longrightarrow> v = - 1 \<or> (0 \<le> v \<and> v < query_index s + 1)"
    using assms unfolding scan_inv_def by force
  show ?thesis using assms a c by (simp add: scan_inv_def interval_insert)
qed

lemma scan_column_cases:
  assumes "scan_column q t g i s = Inr s'"
  shows "s' = s\<lparr>target_to_query_indices := (target_to_query_indices s)(target_index s \<mapsto> - 1),
               target_index := target_index s + 1\<rparr>
       \<or> s' = s\<lparr>sparse_query_contact_map :=
                        sparse_query_contact_map s @ generated_loop g (query_index s),
                      query_index := query_index s + 1\<rparr>
       \<or> s' = s\<lparr>target_to_query_indices :=
                        (target_to_query_indices s)(target_index s \<mapsto> query_index s),
                      query_index := query_index s + 1,
                      target_index := target_index s + 1\<rparr>"
  using assms unfolding scan_column_def str_getitem_def
  by (simp split: if_splits)

lemma scan_column_inv:
  assumes "scan_inv s" "scan_column q t g i s = Inr s'"
  shows "scan_inv s'"
  using scan_column_cases[OF assms(2)] scan_inv_gap[OF assms(1)]
    scan_inv_generated[OF assms(1)] scan_inv_match[OF assms(1)]
  by metis

lemma scan_loop_inv:
  "scan_inv s \<Longrightarrow> scan_loop q t g ks s = Inr s' \<Longrightarrow> scan_inv s'"
  by (induction ks arbitrary: s) (auto split: sum.splits dest: scan_column_inv)

lemma scan_inv: "scan q t g = Inr s \<Longrightarrow> scan_inv s"
  unfolding scan_def using scan_loop_inv[OF scan_inv_init] .

lemma scan_column_error:
  "scan_column q t g i s = Inl e \<longleftrightarrow>
     e = IndexError \<and> q ! i \<noteq> CHR ''-'' \<and> length t \<le> i"
  by (auto simp: scan_column_def str_getitem_def)

lemma scan_loop_error:
  "scan_loop q t g ks s = Inl e \<longleftrightarrow>
     e = IndexError \<and> (\<exists>i\<in>set ks. q ! i \<noteq> CHR ''-'' \<and> length t \<le> i)"
proof (induction ks arbitrary: s)
  case Nil
  then show ?case by simp
next
  case (Cons i ks)
  show ?case
  proof (cases "scan_column q t g i s")
    case (Inl e')
    then show ?thesis using scan_column_error[of q t g i s e'] by auto
  next
    case (Inr s')
    then have "\<not> (q ! i \<noteq> CHR ''-'' \<and> length t \<le> i)"
      using scan_column_error[of q t g i s IndexError] by auto
    then show ?thesis using Inr Cons.IH[of s'] by auto
  qed
qed

lemma scan_error:
  "scan q t g = Inl e \<longleftrightarrow>
     e = IndexError \<and> (\<exists>i<length q. q ! i \<noteq> CHR ''-'' \<and> length t \<le> i)"
  unfolding scan_def scan_loop_error by auto

lemma scan_prefix_counts:
  assumes "k \<le> length q" "k \<le> length t"
  shows "\<exists>s. scan_loop q t g [0..<k] init_state = Inr s \<and>
           query_index s = int (ungapped_length (take k q)) \<and>
           target_index s = int (visited (take k q) (take k t))"
  using assms
proof (induction k)
  case 0
  then show ?case by (simp add: init_state_def ungapped_length_def visited_def)
next
  case (Suc k)
  then obtain s where s: "scan_loop q t g [0..<k] init_state = Inr s"
      "query_index s = int (ungapped_length (take k q))"
      "target_index s = int (visited (take k q) (take k t))"
    by auto
  have k: "k < length q" "k < length t" using Suc.prems by auto
  have tq: "take (Suc k) q = take k q @ [q ! k]" using k by (simp add: take_Suc_conv_app_nth)
  have tt: "take (Suc k) t = take k t @ [t ! k]" using k by (simp add: take_Suc_conv_app_nth)
  have z: "zip (take k q @ [q ! k]) (take k t @ [t ! k]) = zip (take k q) (take k t) @ [(q ! k, t ! k)]"
    using k by simp
  have l: "scan_loop q t g [0..<Suc k] init_state = scan_column q t g k s"
    using s(1) by (simp add: scan_loop_append split: sum.splits)
  show ?case unfolding l tq tt
    using s(2,3) k unfolding ungapped_length_def visited_def z
    by (auto simp: scan_column_def str_getitem_def)
qed

lemma scan_counts:
  assumes "length q = length t"
  shows "\<exists>s. scan q t g = Inr s \<and> query_index s = int (ungapped_length q) \<and>
           target_index s = int (visited q t)"
  using scan_prefix_counts[of "length q" q t g] assms by (simp add: scan_def)

lemma translate_ok:
  "\<forall>x\<in>set cs. fst x \<in> dom d \<and> snd x \<in> dom d \<Longrightarrow>
     translate d cs = Inr (map (\<lambda>x. (the (d (fst x)), the (d (snd x)))) cs)"
  by (induction cs) auto

lemma translate_KeyError:
  "\<exists>x\<in>set cs. fst x \<notin> dom d \<or> snd x \<notin> dom d \<Longrightarrow> translate d cs = Inl KeyError"
proof (induction cs)
  case Nil
  then show ?case by simp
next
  case (Cons x xs)
  show ?case
  proof (cases "fst x \<in> dom d \<and> snd x \<in> dom d")
    case True
    then have "\<exists>x\<in>set xs. fst x \<notin> dom d \<or> snd x \<notin> dom d" using Cons.prems by auto
    then have "translate d xs = Inl KeyError" by (rule Cons.IH)
    then show ?thesis using True by auto
  next
    case False
    then show ?thesis by (auto split: option.splits)
  qed
qed

lemma translate_Inr_dom:
  assumes "translate d cs = Inr r"
  shows "\<forall>x\<in>set cs. fst x \<in> dom d \<and> snd x \<in> dom d"
proof (rule ccontr)
  assume "\<not> ?thesis"
  then have "translate d cs = Inl KeyError" using translate_KeyError[of cs d] by blast
  then show False using assms by simp
qed

lemma translate_Inr_map:
  assumes "translate d cs = Inr r"
  shows "r = map (\<lambda>x. (the (d (fst x)), the (d (snd x)))) cs"
  using translate_ok[OF translate_Inr_dom[OF assms]] assms by simp

lemma translate_error: "translate d cs = Inl e \<Longrightarrow> e = KeyError"
  by (induction cs arbitrary: e) (auto split: option.splits sum.splits)

lemma merged_snd_range:
  assumes "scan_inv s" "translate (target_to_query_indices s) cs = Inr sm"
  shows "\<forall>x\<in>set (merged_contacts s sm). 0 \<le> snd x \<and> snd x < query_index s"
proof
  fix x assume "x \<in> set (merged_contacts s sm)"
  then consider "x \<in> set (sparse_query_contact_map s)" | "x \<in> set (filter_unmapped sm)"
    by (auto simp: merged_contacts_def)
  then show "0 \<le> snd x \<and> snd x < query_index s"
  proof cases
    case 1
    then show ?thesis using assms(1) by (simp add: scan_inv_def)
  next
    case 2
    let ?d = "target_to_query_indices s"
    from 2 have x: "x \<in> set sm" "snd x \<noteq> - 1" by (auto simp: filter_unmapped_def)
    from x(1) obtain y where y: "y \<in> set cs" "x = (the (?d (fst y)), the (?d (snd y)))"
      unfolding translate_Inr_map[OF assms(2)] by auto
    have "snd y \<in> dom ?d" using translate_Inr_dom[OF assms(2)] y(1) by blast
    then obtain v where v: "?d (snd y) = Some v" by auto
    then have "v = - 1 \<or> (0 \<le> v \<and> v < query_index s)"
      using assms(1) unfolding scan_inv_def by blast
    then show ?thesis using x(2) y(2) v by simp
  qed
qed

lemma align_char:
  assumes "scan q t g = Inr s" "translate (target_to_query_indices s) cs = Inr sm"
  shows "\<exists>m. align_contact_map q t cs g = Inr m \<and> square (nat (query_index s)) m \<and>
           (\<forall>r<nat (query_index s). \<forall>c<nat (query_index s). m ! r ! c =
              (if r = c \<or> (int r, int c) \<in> set (written (query_index s) (merged_contacts s sm))
               then 1 else 0))"
proof -
  have inv: "scan_inv s" using assms(1) by (rule scan_inv)
  then have qi: "0 \<le> query_index s" by (simp add: scan_inv_def)
  have a: "align_contact_map q t cs g = assemble (query_index s) (merged_contacts s sm)"
    using assms by (simp add: align_contact_map_def)
  show ?thesis unfolding a
    using assemble_char[OF qi merged_snd_range[OF inv assms(2)]] .
qed

lemma written_sym: "(a, b) \<in> set (written qi cs) \<Longrightarrow> (b, a) \<in> set (written qi cs)"
  by (auto simp: written_def)

lemma written_iff:
  "(a, b) \<in> set (written qi cs) \<longleftrightarrow>
     (\<exists>x\<in>set cs. 0 \<le> fst x \<and> fst x < qi \<and> ((a, b) = x \<or> (b, a) = x))"
  by (induction cs) (auto simp: written_def)

lemma valid_call_returns:
  assumes "length q = length t"
    and "\<forall>x\<in>set cs. 0 \<le> fst x \<and> fst x < int (visited q t) \<and> 0 \<le> snd x \<and> snd x < int (visited q t)"
  shows "\<exists>s sm. scan q t g = Inr s \<and> translate (target_to_query_indices s) cs = Inr sm \<and>
           query_index s = int (ungapped_length q)"
proof -
  from scan_counts[OF assms(1), of g] obtain s where
    s: "scan q t g = Inr s" "query_index s = int (ungapped_length q)" "target_index s = int (visited q t)"
    by auto
  have "dom (target_to_query_indices s) = {0..<int (visited q t)}"
    using scan_inv[OF s(1)] s(3) by (simp add: scan_inv_def)
  then have "\<forall>x\<in>set cs. fst x \<in> dom (target_to_query_indices s) \<and> snd x \<in> dom (target_to_query_indices s)"
    using assms(2) by simp
  from translate_ok[OF this] show ?thesis using s by blast
qed

lemma align_IndexError_iff:
  "align_contact_map q t cs g = Inl IndexError \<longleftrightarrow>
     (\<exists>c<length q. q ! c \<noteq> CHR ''-'' \<and> length t \<le> c)"
proof (cases "scan q t g")
  case (Inl e)
  then have "e = IndexError \<and> (\<exists>c<length q. q ! c \<noteq> CHR ''-'' \<and> length t \<le> c)"
    using scan_error[of q t g e] by simp
  then show ?thesis using Inl by (simp add: align_contact_map_def)
next
  case (Inr s)
  have no: "\<not> (\<exists>c<length q. q ! c \<noteq> CHR ''-'' \<and> length t \<le> c)"
    using scan_error[of q t g IndexError] Inr by auto
  show ?thesis
  proof (cases "translate (target_to_query_indices s) cs")
    case (Inl e)
    then have "e = KeyError" by (rule translate_error)
    then show ?thesis using no Inr Inl by (simp add: align_contact_map_def)
  next
    case sm: (Inr sm)
    from align_char[OF Inr sm] show ?thesis using no by auto
  qed
qed

lemma filter_unmapped_translated:
  assumes "\<forall>x\<in>set cs. fst x \<in> dom d \<and> snd x \<in> dom d"
  shows "filter_unmapped (map (\<lambda>x. (the (d (fst x)), the (d (snd x))))
            (filter (\<lambda>x. d (fst x) \<noteq> Some (- 1) \<and> d (snd x) \<noteq> Some (- 1)) cs)) =
         filter_unmapped (map (\<lambda>x. (the (d (fst x)), the (d (snd x)))) cs)"
  using assms by (induction cs) (auto simp: filter_unmapped_def)

lemma scan_A_B: "scan ''A-B'' ''ABC'' 2 =
  Inr \<lparr>sparse_query_contact_map = [], target_index = 3, query_index = 2,
          target_to_query_indices = [0 \<mapsto> 0, 1 \<mapsto> - 1, 2 \<mapsto> 1]\<rparr>"
  by (simp add: scan_def scan_column_def init_state_def str_getitem_def upt_rec)

lemma fill_contacts_filter:
  "fill_contacts (filter (\<lambda>x. 0 \<le> fst x \<and> fst x < qi) cs) qi m = fill_contacts cs qi m"
  by (induction cs arbitrary: m) (auto split: sum.splits)

lemma assemble_filter:
  "assemble qi (filter (\<lambda>x. 0 \<le> fst x \<and> fst x < qi) cs) = assemble qi cs"
  by (simp add: assemble_def fill_contacts_filter split: sum.splits)

lemma scan_scenario_B:
  "scan ''ABCDE'' ''AB-DE'' 1 =
     Inr \<lparr>sparse_query_contact_map = [(3, 2), (1, 2)], target_index = 4, query_index = 5,
          target_to_query_indices = [0 \<mapsto> 0, 1 \<mapsto> 1, 2 \<mapsto> 3, 3 \<mapsto> 4]\<rparr>"
  by (simp add: scan_def scan_column_def init_state_def str_getitem_def upt_rec
      generated_loop_def)

lemma scan_identity_prefix:
  assumes "CHR ''-'' \<notin> set q" "k \<le> length q"
  shows "scan_loop q q g [0..<k] init_state =
           Inr \<lparr>sparse_query_contact_map = [], target_index = int k, query_index = int k,
                target_to_query_indices = (\<lambda>a. if 0 \<le> a \<and> a < int k then Some a else None)\<rparr>"
  using assms(2)
proof (induction k)
  case 0
  have "(\<lambda>a::int. if 0 \<le> a \<and> a < 0 then Some a else None) = Map.empty"
    by (rule ext) simp
  then show ?case by (simp add: init_state_def)
next
  case (Suc k)
  let ?s = "\<lparr>sparse_query_contact_map = [], target_index = int k, query_index = int k,
                target_to_query_indices = (\<lambda>a. if 0 \<le> a \<and> a < int k then Some a else None)\<rparr>"
  have p: "scan_loop q q g [0..<k] init_state = Inr ?s" using Suc by simp
  have k: "k < length q" using Suc.prems by simp
  then have ng: "q ! k \<noteq> CHR ''-''" using assms(1) nth_mem by metis
  have u: "(\<lambda>a. if 0 \<le> a \<and> a < int k then Some a else None)(int k \<mapsto> int k) =
           (\<lambda>a. if 0 \<le> a \<and> a < int (Suc k) then Some a else None)"
    by (rule ext) auto
  have c: "scan_column q q g k ?s =
      Inr \<lparr>sparse_query_contact_map = [], target_index = int (Suc k), query_index = int (Suc k),
           target_to_query_indices = (\<lambda>a. if 0 \<le> a \<and> a < int (Suc k) then Some a else None)\<rparr>"
    using k ng u by (simp add: scan_column_def str_getitem_def)
  show ?case using p c by (simp add: scan_loop_append)
qed

lemma dense_symmetric_form_square: "square n (dense_symmetric_form n cs)"
  by (simp add: square_def dense_symmetric_form_def)

lemma dense_symmetric_form_cell:
  "r < n \<Longrightarrow> c < n \<Longrightarrow>
     dense_symmetric_form n cs ! r ! c =
       (if r = c \<or> (int r, int c) \<in> set cs \<or> (int c, int r) \<in> set cs then 1 else 0)"
  by (simp add: dense_symmetric_form_def)

lemma square_eqI:
  assumes "square n a" "square n b" "\<forall>r<n. \<forall>c<n. a ! r ! c = b ! r ! c"
  shows "a = b"
proof (rule nth_equalityI)
  show "length a = length b" using assms(1,2) by (simp add: square_def)
next
  fix r assume "r < length a"
  then have r: "r < n" using assms(1) by (simp add: square_def)
  show "a ! r = b ! r"
  proof (rule nth_equalityI)
    show "length (a ! r) = length (b ! r)" using assms(1,2) r by (simp add: square_def)
  next
    fix c assume "c < length (a ! r)"
    then have "c < n" using assms(1) r by (simp add: square_def)
    then show "a ! r ! c = b ! r ! c" using assms(3) r by simp
  qed
qed

lemma generated_loop_mono:
  "r \<le> r' \<Longrightarrow> set (generated_loop r qi) \<subseteq> set (generated_loop r' qi)"
  by (auto simp: generated_loop_def)

lemma radius_rel_column:
  assumes "r \<le> r'" "radius_rel s s'" "scan_column q t r i s = Inr u"
  shows "\<exists>u'. scan_column q t r' i s' = Inr u' \<and> radius_rel u u'"
proof -
  have g: "set (generated_loop r (query_index s)) \<subseteq> set (generated_loop r' (query_index s))"
    using assms(1) by (rule generated_loop_mono)
  show ?thesis
    using assms(2,3) g unfolding scan_column_def str_getitem_def radius_rel_def
    by (auto split: if_splits)
qed

lemma radius_rel_loop:
  assumes "r \<le> r'" "radius_rel s s'" "scan_loop q t r ks s = Inr u"
  shows "\<exists>u'. scan_loop q t r' ks s' = Inr u' \<and> radius_rel u u'"
  using assms(2,3)
proof (induction ks arbitrary: s s')
  case Nil
  then show ?case by simp
next
  case (Cons i ks)
  from Cons.prems(2) obtain v where
    v: "scan_column q t r i s = Inr v" "scan_loop q t r ks v = Inr u"
    by (auto split: sum.splits)
  from radius_rel_column[OF assms(1) Cons.prems(1) v(1)] obtain v' where
    v': "scan_column q t r' i s' = Inr v'" "radius_rel v v'" by blast
  from Cons.IH[OF v'(2) v(2)] show ?case using v'(1) by simp
qed

lemma radius_rel_scan:
  assumes "r \<le> r'" "scan q t r = Inr u"
  shows "\<exists>u'. scan q t r' = Inr u' \<and> radius_rel u u'"
proof -
  have "radius_rel init_state init_state" by (simp add: radius_rel_def)
  from radius_rel_loop[OF assms(1) this assms(2)[unfolded scan_def]]
  show ?thesis by (simp add: scan_def)
qed

lemma written_mono:
  assumes "set cs \<subseteq> set cs'"
  shows "set (written qi cs) \<subseteq> set (written qi cs')"
proof
  fix x assume "x \<in> set (written qi cs)"
  then have "(fst x, snd x) \<in> set (written qi cs)" by simp
  then have "(fst x, snd x) \<in> set (written qi cs')"
    unfolding written_iff using assms by blast
  then show "x \<in> set (written qi cs')" by simp
qed

lemma scan_boundary_example:
  "scan ''ABC'' ''-B-'' 1 =
     Inr \<lparr>sparse_query_contact_map = [(1, 0), (- 1, 0), (3, 2), (1, 2)], target_index = 1,
          query_index = 3, target_to_query_indices = [0 \<mapsto> 1]\<rparr>"
  by (simp add: scan_def scan_column_def init_state_def str_getitem_def upt_rec
      generated_loop_def)

section \<open>The claims\<close>

subsection \<open>Length mismatch\<close>

text \<open>
  C1 as stated (refuted): every pair of alignment strings of different lengths makes the
  call fail with a dedicated length-mismatch error and produce no output. The function
  has no length check; a query of length 5 against a target of length 4 returns a map when
  its last column is a gap.
\<close>

theorem length_mismatch_undetected:
  "length ''ABCD-'' \<noteq> length ''ABCD'' \<and>
   align_contact_map ''ABCD-'' ''ABCD'' [] 2 =
     Inr [[1, 0, 0, 0], [0, 1, 0, 0], [0, 0, 1, 0], [0, 0, 0, 1]]"
  by code_simp

text \<open>
  C1, amended: for alignment strings of different lengths the call fails with the
  interpreter's index error exactly when the query carries a residue at a column at or
  beyond the end of the target (the subscript of the target string raises there); no map
  is returned in that case. No other length mismatch is detected.
\<close>

theorem length_mismatch_index_error:
  assumes "length q \<noteq> length t"
  shows "align_contact_map q t cs g = Inl IndexError \<longleftrightarrow>
           (\<exists>c<length q. length t \<le> c \<and> q ! c \<noteq> CHR ''-'')"
  unfolding align_IndexError_iff by auto

theorem length_mismatch_index_error_witness:
  "length ''ABCDE'' \<noteq> length ''ABCD'' \<and>
   align_contact_map ''ABCDE'' ''ABCD'' [(0, 1)] 2 = Inl IndexError"
proof -
  have l: "length ''ABCDE'' \<noteq> length ''ABCD''" by simp
  have "\<exists>c<length ''ABCDE''. length ''ABCD'' \<le> c \<and> ''ABCDE'' ! c \<noteq> CHR ''-''"
    by (rule exI[of _ 4]) simp
  then show ?thesis using length_mismatch_index_error[OF l, of "[(0, 1)]" 2] l by blast
qed

subsection \<open>Columns with a gap in the query\<close>

text \<open>
  C2 as stated (refuted): on a column where both strings carry the gap symbol neither
  index advances and no correspondence entry is written. The scan tests the query symbol
  only: on such a column, from the initial state, the target index becomes 1 and the
  entry \<open>0 \<mapsto> -1\<close> is written.
\<close>

theorem double_gap_column_counterexample:
  "''-'' ! 0 = CHR ''-'' \<and> target_index init_state = 0 \<and>
   target_to_query_indices init_state 0 = None \<and>
   scan_column ''-'' ''-'' 2 0 init_state =
     Inr \<lparr>sparse_query_contact_map = [], target_index = 1, query_index = 0,
          target_to_query_indices = [0 \<mapsto> - 1]\<rparr>"
  by (simp add: scan_column_def init_state_def)

text \<open>
  C2, amended: on a column where both strings carry the gap symbol the query index is not
  advanced and no contact is appended, but the entry \<open>target_index \<mapsto> -1\<close> is written
  and the target index advances by one, exactly as on any column with a gap in the query.
\<close>

theorem query_gap_column_step:
  assumes "i < length q" "i < length t" "q ! i = CHR ''-''" "t ! i = CHR ''-''"
  shows "scan_column q t g i s =
           Inr (s\<lparr>target_to_query_indices := (target_to_query_indices s)(target_index s \<mapsto> - 1),
                  target_index := target_index s + 1\<rparr>)"
  using assms by (simp add: scan_column_def)

theorem query_gap_column_step_witness:
  "scan_column ''A-'' ''B-'' 2 1
     \<lparr>sparse_query_contact_map = [], target_index = 1, query_index = 1,
      target_to_query_indices = [0 \<mapsto> 0]\<rparr> =
   Inr \<lparr>sparse_query_contact_map = [], target_index = 2, query_index = 1,
        target_to_query_indices = [0 \<mapsto> 0, 1 \<mapsto> - 1]\<rparr>"
  using query_gap_column_step[of 1 "''A-''" "''B-''" 2
      "\<lparr>sparse_query_contact_map = [], target_index = 1, query_index = 1,
        target_to_query_indices = [0 \<mapsto> 0]\<rparr>"]
  by simp

subsection \<open>Translation of the target contacts\<close>

text \<open>
  C3 as stated (refuted): a pair with an index absent from the correspondence domain is
  dropped and the call still returns a map. The dictionary is subscripted directly, so
  the call fails with a key error.
\<close>

theorem absent_index_key_error:
  "align_contact_map ''A'' ''A'' [(0, 5)] 2 = Inl KeyError"
  by code_simp

text \<open>
  C3, amended: when every index of the sparse target contacts lies in the correspondence
  domain, the call returns a map, and the pairs with an endpoint mapped to the unmapped
  marker -1 are dropped: the map is the one returned for the input without those pairs.
  When some index is absent from the domain, the call fails with a key error.
\<close>

theorem translation_unmapped_dropped_absent_raises:
  assumes "scan q t g = Inr s" and d: "d = target_to_query_indices s"
  shows "((\<forall>x\<in>set cs. fst x \<in> dom d \<and> snd x \<in> dom d) \<longrightarrow>
            (\<exists>m. align_contact_map q t cs g = Inr m \<and>
                 align_contact_map q t
                   (filter (\<lambda>x. d (fst x) \<noteq> Some (- 1) \<and> d (snd x) \<noteq> Some (- 1)) cs) g = Inr m)) \<and>
         ((\<exists>x\<in>set cs. fst x \<notin> dom d \<or> snd x \<notin> dom d) \<longrightarrow>
            align_contact_map q t cs g = Inl KeyError)"
proof (intro conjI impI)
  assume dom: "\<forall>x\<in>set cs. fst x \<in> dom d \<and> snd x \<in> dom d"
  let ?f = "\<lambda>x. (the (d (fst x)), the (d (snd x)))"
  let ?cs' = "filter (\<lambda>x. d (fst x) \<noteq> Some (- 1) \<and> d (snd x) \<noteq> Some (- 1)) cs"
  have t1: "translate d cs = Inr (map ?f cs)" using translate_ok[OF dom] .
  have "\<forall>x\<in>set ?cs'. fst x \<in> dom d \<and> snd x \<in> dom d" using dom by simp
  then have t2: "translate d ?cs' = Inr (map ?f ?cs')" by (rule translate_ok)
  have m: "merged_contacts s (map ?f ?cs') = merged_contacts s (map ?f cs)"
    unfolding merged_contacts_def using filter_unmapped_translated[OF dom] by simp
  have a1: "align_contact_map q t cs g = assemble (query_index s) (merged_contacts s (map ?f cs))"
    using assms(1) t1 d by (simp add: align_contact_map_def)
  have a2: "align_contact_map q t ?cs' g = assemble (query_index s) (merged_contacts s (map ?f cs))"
    using assms(1) t2 d m by (simp add: align_contact_map_def)
  from align_char[OF assms(1) t1[unfolded d]] obtain m where "align_contact_map q t cs g = Inr m"
    by blast
  then show "\<exists>m. align_contact_map q t cs g = Inr m \<and> align_contact_map q t ?cs' g = Inr m"
    using a1 a2 by simp
next
  assume "\<exists>x\<in>set cs. fst x \<notin> dom d \<or> snd x \<notin> dom d"
  then have "translate d cs = Inl KeyError" by (rule translate_KeyError)
  then show "align_contact_map q t cs g = Inl KeyError"
    using assms(1) d by (simp add: align_contact_map_def)
qed

theorem translation_unmapped_dropped_absent_raises_witness:
  "align_contact_map ''A-B'' ''ABC'' [(0, 1), (0, 2)] 2 = Inr [[1, 1], [1, 1]] \<and>
   align_contact_map ''A-B'' ''ABC'' [(0, 2)] 2 = Inr [[1, 1], [1, 1]] \<and>
   align_contact_map ''A-B'' ''ABC'' [(0, 3)] 2 = Inl KeyError"
proof -
  let ?d = "[0 \<mapsto> 0, 1 \<mapsto> - 1, 2 \<mapsto> (1::int)] :: int \<rightharpoonup> int"
  have e: "align_contact_map ''A-B'' ''ABC'' [(0, 1), (0, 2)] 2 = Inr [[1, 1], [1, 1]]"
    by code_simp
  have "align_contact_map ''A-B'' ''ABC''
          (filter (\<lambda>x. ?d (fst x) \<noteq> Some (- 1) \<and> ?d (snd x) \<noteq> Some (- 1)) [(0, 1), (0, 2)]) 2
        = Inr [[1, 1], [1, 1]]"
    using translation_unmapped_dropped_absent_raises[OF scan_A_B, of ?d "[(0, 1), (0, 2)]"] e by simp
  then have f: "align_contact_map ''A-B'' ''ABC'' [(0, 2)] 2 = Inr [[1, 1], [1, 1]]"
    by simp
  have k: "align_contact_map ''A-B'' ''ABC'' [(0, 3)] 2 = Inl KeyError"
    using translation_unmapped_dropped_absent_raises[OF scan_A_B, of ?d "[(0, 3)]"] by simp
  show ?thesis using e f k by simp
qed

subsection \<open>Shape of the returned map\<close>

text \<open>
  C4: for every valid call (alignment strings of equal length, every index of the sparse
  target contacts inside the correspondence domain, which is the interval below the
  number of columns the scan counts as target positions), the call returns a map and the
  map is symmetric.
\<close>

theorem align_contact_map_symmetric:
  assumes "length q = length t"
    and "\<forall>x\<in>set cs. 0 \<le> fst x \<and> fst x < int (visited q t) \<and> 0 \<le> snd x \<and> snd x < int (visited q t)"
  shows "\<exists>m. align_contact_map q t cs g = Inr m \<and>
           (\<forall>i<length m. \<forall>j<length m. m ! i ! j = m ! j ! i)"
proof -
  from valid_call_returns[OF assms] obtain s sm where
    s: "scan q t g = Inr s" "translate (target_to_query_indices s) cs = Inr sm"
    by blast
  from align_char[OF s] obtain m where
    m: "align_contact_map q t cs g = Inr m" "square (nat (query_index s)) m"
       "\<forall>r<nat (query_index s). \<forall>c<nat (query_index s). m ! r ! c =
              (if r = c \<or> (int r, int c) \<in> set (written (query_index s) (merged_contacts s sm))
               then 1 else 0)"
    by blast
  have l: "length m = nat (query_index s)" using m(2) by (simp add: square_def)
  have "m ! i ! j = m ! j ! i" if "i < length m" "j < length m" for i j
  proof -
    let ?W = "set (written (query_index s) (merged_contacts s sm))"
    have w: "(int i, int j) \<in> ?W \<longleftrightarrow> (int j, int i) \<in> ?W"
      using written_sym by blast
    have "m ! i ! j = (if i = j \<or> (int i, int j) \<in> ?W then 1 else 0)"
      using m(3) that unfolding l by simp
    moreover have "m ! j ! i = (if j = i \<or> (int j, int i) \<in> ?W then 1 else 0)"
      using m(3) that unfolding l by simp
    ultimately show ?thesis using w by auto
  qed
  then show ?thesis using m(1) by blast
qed

theorem align_contact_map_symmetric_witness:
  "length ''A-CD'' = length ''ABC-'' \<and>
   (\<exists>m. align_contact_map ''A-CD'' ''ABC-'' [(0, 2), (1, 2)] 1 = Inr m \<and>
        length m = 3 \<and> m ! 0 ! 1 = m ! 1 ! 0 \<and> m ! 0 ! 2 = m ! 2 ! 0 \<and> m ! 1 ! 2 = m ! 2 ! 1)"
proof -
  have h1: "length ''A-CD'' = length ''ABC-''" by simp
  have h2: "\<forall>x\<in>set [(0, 2), (1, 2)].
      0 \<le> fst x \<and> fst x < int (visited ''A-CD'' ''ABC-'') \<and>
      0 \<le> snd x \<and> snd x < int (visited ''A-CD'' ''ABC-'')"
    by (simp add: visited_def)
  from align_contact_map_symmetric[OF h1 h2, of 1] obtain m where
    m: "align_contact_map ''A-CD'' ''ABC-'' [(0, 2), (1, 2)] 1 = Inr m"
       "\<forall>i<length m. \<forall>j<length m. m ! i ! j = m ! j ! i"
    by blast
  have "align_contact_map ''A-CD'' ''ABC-'' [(0, 2), (1, 2)] 1 =
          Inr [[1, 1, 0], [1, 1, 1], [0, 1, 1]]"
    by code_simp
  then have l: "length m = 3" using m(1) by auto
  have "m ! 0 ! 1 = m ! 1 ! 0" "m ! 0 ! 2 = m ! 2 ! 0" "m ! 1 ! 2 = m ! 2 ! 1"
    using m(2) l by simp_all
  then show ?thesis using h1 m(1) l by simp
qed

text \<open>
  C5: for every valid call the returned map has as many rows as the query alignment has
  symbols other than the gap, every row has that length, and every diagonal cell holds 1.
\<close>

theorem align_contact_map_dimension_diagonal:
  assumes "length q = length t"
    and "\<forall>x\<in>set cs. 0 \<le> fst x \<and> fst x < int (visited q t) \<and> 0 \<le> snd x \<and> snd x < int (visited q t)"
  shows "\<exists>m. align_contact_map q t cs g = Inr m \<and> length m = ungapped_length q \<and>
           (\<forall>i<ungapped_length q. length (m ! i) = ungapped_length q \<and> m ! i ! i = 1)"
proof -
  from valid_call_returns[OF assms] obtain s sm where
    s: "scan q t g = Inr s" "translate (target_to_query_indices s) cs = Inr sm"
       "query_index s = int (ungapped_length q)"
    by blast
  from align_char[OF s(1,2)] obtain m where
    m: "align_contact_map q t cs g = Inr m" "square (ungapped_length q) m"
       "\<forall>r<ungapped_length q. \<forall>c<ungapped_length q. m ! r ! c =
              (if r = c \<or> (int r, int c) \<in> set (written (query_index s) (merged_contacts s sm))
               then 1 else 0)"
    unfolding s(3) by auto
  have d: "\<forall>i<ungapped_length q. m ! i ! i = 1" using m(3) by simp
  have l: "length m = ungapped_length q" "\<forall>i<ungapped_length q. length (m ! i) = ungapped_length q"
    using m(2) by (simp_all add: square_def)
  show ?thesis using m(1) d l by simp
qed

theorem align_contact_map_dimension_diagonal_witness:
  "length ''A-CD'' = length ''ABC-'' \<and> ungapped_length ''A-CD'' = 3 \<and>
   (\<exists>m. align_contact_map ''A-CD'' ''ABC-'' [(0, 2), (1, 2)] 1 = Inr m \<and>
        length m = 3 \<and> length (m ! 2) = 3 \<and> m ! 0 ! 0 = 1 \<and> m ! 1 ! 1 = 1 \<and> m ! 2 ! 2 = 1)"
proof -
  have h1: "length ''A-CD'' = length ''ABC-''" by simp
  have h2: "\<forall>x\<in>set [(0, 2), (1, 2)].
      0 \<le> fst x \<and> fst x < int (visited ''A-CD'' ''ABC-'') \<and>
      0 \<le> snd x \<and> snd x < int (visited ''A-CD'' ''ABC-'')"
    by (simp add: visited_def)
  have r: "ungapped_length ''A-CD'' = 3" by (simp add: ungapped_length_def)
  from align_contact_map_dimension_diagonal[OF h1 h2, of 1] obtain m where
    m: "align_contact_map ''A-CD'' ''ABC-'' [(0, 2), (1, 2)] 1 = Inr m" "length m = 3"
       "\<forall>i<3. length (m ! i) = 3 \<and> m ! i ! i = 1"
    unfolding r by blast
  have "length (m ! 2) = 3" "m ! 0 ! 0 = 1" "m ! 1 ! 1 = 1" "m ! 2 ! 2 = 1"
    using m(3) by simp_all
  then show ?thesis using h1 r m(1,2) by simp
qed

subsection \<open>Columns with a residue in the query and a gap in the target\<close>

text \<open>
  C6: on a column where the query carries a residue and the target the gap symbol, the
  scan appends \<open>(query_index + j, query_index)\<close> and \<open>(query_index - j, query_index)\<close>
  for every \<open>j\<close> from 1 to the radius, in this order, then increments the query index and
  leaves the target index and the dictionary as they are. For the query ABCDE, the target
  AB-DE and radius 1, whatever target contacts are given inside the correspondence domain
  (the indices 0 to 3), the call returns a map whose cells (1,2), (2,1), (3,2) and (2,3)
  hold 1.
\<close>

theorem target_gap_column_generates:
  "(i < length q \<and> i < length t \<and> q ! i \<noteq> CHR ''-'' \<and> t ! i = CHR ''-'' \<longrightarrow>
      scan_column q t g i s =
        Inr (s\<lparr>sparse_query_contact_map :=
                 sparse_query_contact_map s @
                 concat (map (\<lambda>j. [(query_index s + j, query_index s),
                                    (query_index s - j, query_index s)]) [1..g]),
               query_index := query_index s + 1\<rparr>)) \<and>
   ((\<forall>x\<in>set cs. fst x \<in> {0..<4} \<and> snd x \<in> {0..<4}) \<longrightarrow>
      (\<exists>m. align_contact_map ''ABCDE'' ''AB-DE'' cs 1 = Inr m \<and>
           m ! 1 ! 2 = 1 \<and> m ! 2 ! 1 = 1 \<and> m ! 3 ! 2 = 1 \<and> m ! 2 ! 3 = 1))"
proof (intro conjI impI)
  assume "i < length q \<and> i < length t \<and> q ! i \<noteq> CHR ''-'' \<and> t ! i = CHR ''-''"
  then show "scan_column q t g i s =
        Inr (s\<lparr>sparse_query_contact_map :=
                 sparse_query_contact_map s @
                 concat (map (\<lambda>j. [(query_index s + j, query_index s),
                                    (query_index s - j, query_index s)]) [1..g]),
               query_index := query_index s + 1\<rparr>)"
    by (simp add: scan_column_def str_getitem_def generated_loop_def)
next
  assume dom: "\<forall>x\<in>set cs. fst x \<in> {0..<4} \<and> snd x \<in> {0..<4}"
  let ?s = "\<lparr>sparse_query_contact_map = [(3, 2), (1, 2)], target_index = 4, query_index = 5,
          target_to_query_indices = [0 \<mapsto> 0, 1 \<mapsto> 1, 2 \<mapsto> 3, 3 \<mapsto> (4::int)]\<rparr>"
  have "dom (target_to_query_indices ?s) = {0..<4}" by auto
  then have "\<forall>x\<in>set cs. fst x \<in> dom (target_to_query_indices ?s) \<and>
                snd x \<in> dom (target_to_query_indices ?s)"
    using dom by simp
  from translate_ok[OF this] obtain sm where
    sm: "translate (target_to_query_indices ?s) cs = Inr sm" by blast
  from align_char[OF scan_scenario_B sm] obtain m where
    m: "align_contact_map ''ABCDE'' ''AB-DE'' cs 1 = Inr m"
       "\<forall>r<5. \<forall>c<5. m ! r ! c =
          (if r = c \<or> (int r, int c) \<in> set (written 5 (merged_contacts ?s sm)) then 1 else 0)"
    by auto
  have w: "(1, 2) \<in> set (written 5 (merged_contacts ?s sm))"
          "(2, 1) \<in> set (written 5 (merged_contacts ?s sm))"
          "(3, 2) \<in> set (written 5 (merged_contacts ?s sm))"
          "(2, 3) \<in> set (written 5 (merged_contacts ?s sm))"
    by (simp_all add: written_def merged_contacts_def)
  have "m ! 1 ! 2 = 1" "m ! 2 ! 1 = 1" "m ! 3 ! 2 = 1" "m ! 2 ! 3 = 1"
    using m(2) w by simp_all
  then show "\<exists>m. align_contact_map ''ABCDE'' ''AB-DE'' cs 1 = Inr m \<and>
           m ! 1 ! 2 = 1 \<and> m ! 2 ! 1 = 1 \<and> m ! 3 ! 2 = 1 \<and> m ! 2 ! 3 = 1"
    using m(1) by simp
qed

theorem target_gap_column_generates_witness:
  "scan_column ''AC'' ''A-'' 2 1
     \<lparr>sparse_query_contact_map = [], target_index = 1, query_index = 1,
      target_to_query_indices = [0 \<mapsto> 0]\<rparr> =
   Inr \<lparr>sparse_query_contact_map = [(2, 1), (0, 1), (3, 1), (- 1, 1)], target_index = 1,
        query_index = 2, target_to_query_indices = [0 \<mapsto> 0]\<rparr> \<and>
   (\<exists>m. align_contact_map ''ABCDE'' ''AB-DE'' [(0, 1), (2, 3)] 1 = Inr m \<and>
        m ! 1 ! 2 = 1 \<and> m ! 2 ! 1 = 1 \<and> m ! 3 ! 2 = 1 \<and> m ! 2 ! 3 = 1)"
proof -
  have u: "[1..2::int] = [1, 2]" by code_simp
  show ?thesis
    using target_gap_column_generates[of 1 "''AC''" "''A-''" 2
      "\<lparr>sparse_query_contact_map = [], target_index = 1, query_index = 1,
        target_to_query_indices = [0 \<mapsto> 0]\<rparr>" "[(0, 1), (2, 3)]"]
    by (simp add: u)
qed

subsection \<open>Identity alignment\<close>

text \<open>
  C7: when both alignment strings are the same string without a gap symbol and every
  index of the sparse target contacts lies in \<open>[0, N)\<close>, \<open>N\<close> the length of the string,
  the call returns exactly the dense symmetric form of the source contact graph on \<open>N\<close>
  indices with the diagonal set, whatever the radius.
\<close>

theorem identity_alignment_projects_source:
  assumes "CHR ''-'' \<notin> set q"
    and "\<forall>x\<in>set cs. 0 \<le> fst x \<and> fst x < int (length q) \<and> 0 \<le> snd x \<and> snd x < int (length q)"
  shows "align_contact_map q q cs g = Inr (dense_symmetric_form (length q) cs)"
proof -
  let ?n = "length q"
  let ?d = "\<lambda>a. if 0 \<le> a \<and> a < int ?n then Some a else None"
  let ?s = "\<lparr>sparse_query_contact_map = [], target_index = int ?n, query_index = int ?n,
                target_to_query_indices = ?d\<rparr>"
  have sc: "scan q q g = Inr ?s"
    unfolding scan_def using scan_identity_prefix[OF assms(1), of ?n g] by simp
  have "\<forall>x\<in>set cs. fst x \<in> dom ?d \<and> snd x \<in> dom ?d"
    using assms(2) by (auto simp: dom_def)
  from translate_ok[OF this]
  have "translate ?d cs = Inr (map (\<lambda>x. (the (?d (fst x)), the (?d (snd x)))) cs)" .
  moreover have "map (\<lambda>x. (the (?d (fst x)), the (?d (snd x)))) cs = cs"
    using assms(2) by (intro map_idI) auto
  ultimately have tr: "translate (target_to_query_indices ?s) cs = Inr cs" by simp
  have "filter_unmapped cs = cs"
    unfolding filter_unmapped_def using assms(2) by (intro filter_True) auto
  then have mg: "merged_contacts ?s cs = cs" by (simp add: merged_contacts_def)
  from align_char[OF sc tr] obtain m where
    m: "align_contact_map q q cs g = Inr m" "square ?n m"
       "\<forall>r<?n. \<forall>c<?n. m ! r ! c =
          (if r = c \<or> (int r, int c) \<in> set (written (int ?n) cs) then 1 else 0)"
    unfolding mg by auto
  have w: "(int r, int c) \<in> set (written (int ?n) cs) \<longleftrightarrow>
           (int r, int c) \<in> set cs \<or> (int c, int r) \<in> set cs" for r c
    unfolding written_iff using assms(2) by auto
  have "\<forall>r<?n. \<forall>c<?n. m ! r ! c = dense_symmetric_form ?n cs ! r ! c"
    using m(3) by (simp add: dense_symmetric_form_cell w)
  from square_eqI[OF m(2) dense_symmetric_form_square this]
  show ?thesis using m(1) by simp
qed

theorem identity_alignment_projects_source_witness:
  "align_contact_map ''ABCDE'' ''ABCDE'' [(0, 1), (2, 4)] 2 =
     Inr [[1, 1, 0, 0, 0], [1, 1, 0, 0, 0], [0, 0, 1, 0, 1], [0, 0, 0, 1, 0], [0, 0, 1, 0, 1]]"
proof -
  have d: "dense_symmetric_form (length ''ABCDE'') [(0, 1), (2, 4)] =
     [[1, 1, 0, 0, 0], [1, 1, 0, 0, 0], [0, 0, 1, 0, 1], [0, 0, 0, 1, 0], [0, 0, 1, 0, 1]]"
    by code_simp
  show ?thesis
    using identity_alignment_projects_source[of "''ABCDE''" "[(0, 1), (2, 4)]" 2]
    unfolding d by simp
qed

subsection \<open>Bounds safety of the assembly\<close>

text \<open>
  C8: whenever the scan and the translation succeed, so that the assembly runs, every
  merged contact has its second endpoint in \<open>[0, N_q)\<close>; the assembly raises no error;
  the contacts whose first endpoint lies outside \<open>[0, N_q)\<close> are dropped, the result
  being the one assembled from the merged list without them; and a cell of the result
  holds 1 exactly when it is on the diagonal or is one of the two orientations of a
  merged contact whose first endpoint lies in \<open>[0, N_q)\<close>. Since a subscript below 0
  would wrap around and one at or beyond \<open>N_q\<close> would raise in \<open>setitem\<close>, no such
  subscript is ever used.
\<close>

theorem assembly_bounds_safe:
  assumes "scan q t g = Inr s" "translate (target_to_query_indices s) cs = Inr sm"
  shows "(\<forall>x\<in>set (merged_contacts s sm). 0 \<le> snd x \<and> snd x < query_index s) \<and>
         (\<exists>m. align_contact_map q t cs g = Inr m \<and>
              assemble (query_index s)
                (filter (\<lambda>x. 0 \<le> fst x \<and> fst x < query_index s) (merged_contacts s sm)) = Inr m \<and>
              length m = nat (query_index s) \<and>
              (\<forall>r<nat (query_index s). \<forall>c<nat (query_index s).
                 (m ! r ! c = 1) =
                 (r = c \<or> (\<exists>x\<in>set (merged_contacts s sm). 0 \<le> fst x \<and> fst x < query_index s \<and>
                              ((int r, int c) = x \<or> (int c, int r) = x)))))"
proof -
  let ?N = "query_index s" and ?M = "merged_contacts s sm"
  have j: "\<forall>x\<in>set ?M. 0 \<le> snd x \<and> snd x < ?N"
    using merged_snd_range[OF scan_inv[OF assms(1)] assms(2)] .
  from align_char[OF assms] obtain m where
    m: "align_contact_map q t cs g = Inr m" "square (nat ?N) m"
       "\<forall>r<nat ?N. \<forall>c<nat ?N. m ! r ! c =
              (if r = c \<or> (int r, int c) \<in> set (written ?N ?M) then 1 else 0)"
    by blast
  have a: "align_contact_map q t cs g = assemble ?N ?M"
    using assms by (simp add: align_contact_map_def)
  have f: "assemble ?N (filter (\<lambda>x. 0 \<le> fst x \<and> fst x < ?N) ?M) = Inr m"
    using a m(1) by (simp add: assemble_filter)
  have l: "length m = nat ?N" using m(2) by (simp add: square_def)
  have c: "\<forall>r<nat ?N. \<forall>c<nat ?N. (m ! r ! c = 1) =
             (r = c \<or> (\<exists>x\<in>set ?M. 0 \<le> fst x \<and> fst x < ?N \<and>
                              ((int r, int c) = x \<or> (int c, int r) = x)))"
    using m(3) by (simp add: written_iff)
  show ?thesis using j m(1) f l c by blast
qed

theorem assembly_bounds_safe_witness:
  "align_contact_map ''ABC'' ''-B-'' [(0, 0)] 1 = Inr [[1, 1, 0], [1, 1, 1], [0, 1, 1]] \<and>
   assemble 3 [(1, 0), (1, 2), (1, 1)] = Inr [[1, 1, 0], [1, 1, 1], [0, 1, 1]]"
proof -
  let ?s = "\<lparr>sparse_query_contact_map = [(1, 0), (- 1, 0), (3, 2), (1, 2)], target_index = 1,
          query_index = 3, target_to_query_indices = [0 \<mapsto> (1::int)]\<rparr>"
  have tr: "translate (target_to_query_indices ?s) [(0, 0)] = Inr [(1, 1)]" by simp
  have e: "align_contact_map ''ABC'' ''-B-'' [(0, 0)] 1 = Inr [[1, 1, 0], [1, 1, 1], [0, 1, 1]]"
    by code_simp
  from assembly_bounds_safe[OF scan_boundary_example tr] obtain m where
    m: "align_contact_map ''ABC'' ''-B-'' [(0, 0)] 1 = Inr m"
       "assemble (query_index ?s)
          (filter (\<lambda>x. 0 \<le> fst x \<and> fst x < query_index ?s) (merged_contacts ?s [(1, 1)])) = Inr m"
    by blast
  have "m = [[1, 1, 0], [1, 1, 1], [0, 1, 1]]" using m(1) e by simp
  then have "assemble 3 [(1, 0), (1, 2), (1, 1)] = Inr [[1, 1, 0], [1, 1, 1], [0, 1, 1]]"
    using m(2) by (simp add: merged_contacts_def filter_unmapped_def)
  then show ?thesis using e by simp
qed

subsection \<open>Monotonicity in the radius\<close>

text \<open>
  C10: for fixed alignment strings and target contacts and radii \<open>r \<le> r'\<close>, a call that
  fails with radius \<open>r\<close> fails in the same way with \<open>r'\<close>, and a call that returns a map
  with radius \<open>r\<close> returns with \<open>r'\<close> a map of the same dimensions in which every cell
  holding 1 with radius \<open>r\<close> holds 1 as well.
\<close>

theorem generated_radius_monotone:
  assumes "r \<le> r'"
  shows "(\<forall>e. align_contact_map q t cs r = Inl e \<longrightarrow> align_contact_map q t cs r' = Inl e) \<and>
         (\<forall>m. align_contact_map q t cs r = Inr m \<longrightarrow>
            (\<exists>m'. align_contact_map q t cs r' = Inr m' \<and> length m' = length m \<and>
                 (\<forall>i<length m. length (m' ! i) = length (m ! i) \<and>
                    (\<forall>j<length m. m ! i ! j = 1 \<longrightarrow> m' ! i ! j = 1))))"
proof (cases "scan q t r")
  case (Inl e)
  then have "scan q t r' = Inl e" using scan_error[of q t r e] scan_error[of q t r' e] by simp
  then show ?thesis using Inl by (simp add: align_contact_map_def)
next
  case (Inr s)
  from radius_rel_scan[OF assms Inr] obtain s' where
    s': "scan q t r' = Inr s'" "radius_rel s s'" by blast
  have d: "target_to_query_indices s' = target_to_query_indices s"
    and qi: "query_index s' = query_index s"
    and sub: "set (sparse_query_contact_map s) \<subseteq> set (sparse_query_contact_map s')"
    using s'(2) by (simp_all add: radius_rel_def)
  show ?thesis
  proof (cases "translate (target_to_query_indices s) cs")
    case (Inl e)
    then show ?thesis using Inr s'(1) d by (simp add: align_contact_map_def)
  next
    case sm: (Inr sm)
    let ?n = "nat (query_index s)"
    from align_char[OF Inr sm] obtain m where
      m: "align_contact_map q t cs r = Inr m" "square ?n m"
         "\<forall>i<?n. \<forall>j<?n. m ! i ! j =
            (if i = j \<or> (int i, int j) \<in> set (written (query_index s) (merged_contacts s sm))
             then 1 else 0)"
      by blast
    from align_char[OF s'(1) sm[folded d]] obtain m' where
      m': "align_contact_map q t cs r' = Inr m'" "square ?n m'"
         "\<forall>i<?n. \<forall>j<?n. m' ! i ! j =
            (if i = j \<or> (int i, int j) \<in> set (written (query_index s) (merged_contacts s' sm))
             then 1 else 0)"
      unfolding qi by blast
    have "set (merged_contacts s sm) \<subseteq> set (merged_contacts s' sm)"
      using sub by (auto simp: merged_contacts_def)
    then have w: "set (written (query_index s) (merged_contacts s sm)) \<subseteq>
                  set (written (query_index s) (merged_contacts s' sm))"
      by (rule written_mono)
    have cells: "\<forall>i<?n. \<forall>j<?n. m ! i ! j = 1 \<longrightarrow> m' ! i ! j = 1"
    proof (intro allI impI)
      fix i j assume ij: "i < ?n" "j < ?n" and one: "m ! i ! j = 1"
      have "i = j \<or> (int i, int j) \<in> set (written (query_index s) (merged_contacts s sm))"
        using m(3) ij one by (simp split: if_splits)
      then have "i = j \<or> (int i, int j) \<in> set (written (query_index s) (merged_contacts s' sm))"
        using w by blast
      then show "m' ! i ! j = 1" using m'(3) ij by simp
    qed
    have lm: "length m = ?n" "length m' = ?n"
      "\<forall>i<?n. length (m ! i) = ?n" "\<forall>i<?n. length (m' ! i) = ?n"
      using m(2) m'(2) by (simp_all add: square_def)
    have "\<exists>m'. align_contact_map q t cs r' = Inr m' \<and> length m' = length m \<and>
                 (\<forall>i<length m. length (m' ! i) = length (m ! i) \<and>
                    (\<forall>j<length m. m ! i ! j = 1 \<longrightarrow> m' ! i ! j = 1))"
      using m'(1) lm cells by simp
    then show ?thesis using m(1) by simp
  qed
qed

theorem generated_radius_monotone_witness:
  "(0::int) \<le> 1 \<and>
   align_contact_map ''ABC'' ''A-C'' [] 0 = Inr [[1, 0, 0], [0, 1, 0], [0, 0, 1]] \<and>
   (\<exists>m'. align_contact_map ''ABC'' ''A-C'' [] 1 = Inr m' \<and> length m' = 3 \<and>
        length (m' ! 0) = 3 \<and> m' ! 0 ! 0 = 1 \<and> m' ! 1 ! 1 = 1 \<and> m' ! 2 ! 2 = 1)"
proof -
  have le: "(0::int) \<le> 1" by simp
  have e: "align_contact_map ''ABC'' ''A-C'' [] 0 = Inr [[1, 0, 0], [0, 1, 0], [0, 0, 1]]"
    by code_simp
  from generated_radius_monotone[OF le, of "''ABC''" "''A-C''" "[]"] e obtain m' where
    m': "align_contact_map ''ABC'' ''A-C'' [] 1 = Inr m'"
        "length m' = length [[1, 0, 0], [0, 1, 0], [0, 0, 1::int]]"
        "\<forall>i<length [[1, 0, 0], [0, 1, 0], [0, 0, 1::int]].
           length (m' ! i) = length ([[1, 0, 0], [0, 1, 0], [0, 0, 1::int]] ! i) \<and>
           (\<forall>j<length [[1, 0, 0], [0, 1, 0], [0, 0, 1::int]].
              [[1, 0, 0], [0, 1, 0], [0, 0, 1::int]] ! i ! j = 1 \<longrightarrow> m' ! i ! j = 1)"
    by blast
  have l: "length m' = 3" using m'(2) by simp
  have "length (m' ! 0) = 3" using m'(3) by simp
  moreover have "m' ! 0 ! 0 = 1" using m'(3) by simp
  moreover have "m' ! 1 ! 1 = 1" using m'(3) by (simp add: nth_Cons')
  moreover have "m' ! 2 ! 2 = 1" using m'(3) by (simp add: nth_Cons')
  ultimately show ?thesis using le e m'(1) l by simp
qed

subsection \<open>A structure without residues\<close>

text \<open>
  C9 as stated (refuted): for a structure yielding zero residues the builder returns a
  zero-size contact graph and raises no error. The function has no branch for an empty
  residue list; the empty coordinate array is one-dimensional and the pairwise-distance
  routine rejects it.
\<close>

theorem empty_structure_counterexample:
  "calculate_contact_map (\<lambda>a b. 0) ([] :: (real \<times> real \<times> real) residue list) 1000 6 ''sparse''
     = Inl ValueError"
  by (simp add: calculate_contact_map_def slice_to_def squareform_pdist_def ndim_def)

text \<open>
  C9, amended: for a structure yielding zero residues the builder returns no contact
  graph; the call raises a value error, in either output mode and for every length cap
  and threshold.
\<close>

theorem empty_structure_raises:
  "calculate_contact_map metric [] max_seq_len threshold mode = Inl ValueError"
  by (simp add: calculate_contact_map_def slice_to_def squareform_pdist_def ndim_def)

theorem empty_structure_raises_witness:
  "calculate_contact_map (\<lambda>a b. 0) ([] :: (real \<times> real \<times> real) residue list) 1000 6 ''matrix''
     = Inl ValueError"
  using empty_structure_raises[of "\<lambda>a b. 0" 1000 6 "''matrix''"] by simp

end
